theory Spec2Isabelle
  imports Complex_Main "HOL-Library.Word"
begin

section \<open>Data model\<close>

text \<open>
  A shallow embedding of \<^verbatim>\<open>main.py\<close> of the beat-func service. The file system is a
  map from paths to the bytes of the regular files that exist; the process-wide cache and
  the file system are threaded through every function as one explicit state. An exception
  of the source is a value \<open>Inl e\<close>; since Python keeps every side effect made before
  a raise, each stateful function returns its result together with the state reached.
\<close>

type_synonym byte = "8 word"
type_synonym bytes = "byte list"
type_synonym path = string

text \<open>The value of \<^verbatim>\<open>xxhash.xxh32().digest()\<close>: four bytes, read as one 32-bit word.\<close>

type_synonym fingerprint = "32 word"

text \<open>
  The exceptions that the libraries raise and the source catches by name; \<open>EngineError\<close>
  stands for any other exception raised inside the external beat engine. What a request
  handler raises is either an \<open>HTTPException\<close> of the source's own making, with its
  status code and detail string, or a library exception that no handler caught.
\<close>

datatype exn =
    MutagenError
  | TypeError
  | KeyError
  | ValueError
  | AttributeError
  | FileNotFoundError
  | EngineError

datatype error =
    HTTPException nat string
  | Uncaught exn

text \<open>The cache-related records written to the logger, in the order they are emitted.\<close>

datatype log_event =
    LogEvicting fingerprint
  | LogHit fingerprint
  | LogLoadFailed fingerprint
  | LogMiss fingerprint

text \<open>
  Modelled from the spec: the base class \<^verbatim>\<open>cachetools.LRUCache\<close> of \<^verbatim>\<open>LRUFileCache\<close> is a
  third-party library that is not part of the sources. It is modelled as the spec's
  ResultCache index: a bounded set of entries (fingerprint, path of the backing file)
  ordered by recency of access, least recently used first, every entry counting 1
  towards \<open>maxsize\<close>.
\<close>

record lru_cache =
  entries :: "(fingerprint \<times> path) list"
  maxsize :: nat

record state =
  cache :: lru_cache
  files :: "path \<rightharpoonup> bytes"
  log :: "log_event list"
  engine_calls :: nat

text \<open>\<^verbatim>\<open>cache = LRUFileCache(maxsize=8)\<close>\<close>

definition initial_cache :: lru_cache where
  "initial_cache = \<lparr>entries = [], maxsize = 8\<rparr>"

definition initial_state :: "(path \<rightharpoonup> bytes) \<Rightarrow> state" where
  "initial_state fs = \<lparr>cache = initial_cache, files = fs, log = [], engine_calls = 0\<rparr>"

section \<open>The cache\<close>

text \<open>
  Modelled from the spec: the operations of the missing base class \<^verbatim>\<open>cachetools.LRUCache\<close>.
  \<open>lru_contains\<close> is \<^verbatim>\<open>key in cache\<close>, which does not touch the recency order;
  \<open>lru_getitem\<close> is \<^verbatim>\<open>cache[key]\<close>, which raises \<open>KeyError\<close> on an absent key and
  otherwise marks the key most recently used; \<open>lru_popitem\<close> is \<^verbatim>\<open>super().popitem()\<close>,
  which removes and returns the least recently used pair and raises \<open>KeyError\<close> on an
  empty cache.
\<close>

definition lru_contains :: "lru_cache \<Rightarrow> fingerprint \<Rightarrow> bool" where
  "lru_contains c k = (map_of (entries c) k \<noteq> None)"

definition lru_remove :: "fingerprint \<Rightarrow> (fingerprint \<times> path) list \<Rightarrow> (fingerprint \<times> path) list" where
  "lru_remove k es = filter (\<lambda>e. fst e \<noteq> k) es"

definition lru_getitem :: "lru_cache \<Rightarrow> fingerprint \<Rightarrow> exn + (path \<times> lru_cache)" where
  "lru_getitem c k =
     (case map_of (entries c) k of
        None \<Rightarrow> Inl KeyError
      | Some v \<Rightarrow> Inr (v, c\<lparr>entries := lru_remove k (entries c) @ [(k, v)]\<rparr>))"

definition lru_popitem :: "lru_cache \<Rightarrow> exn + ((fingerprint \<times> path) \<times> lru_cache)" where
  "lru_popitem c =
     (case entries c of
        [] \<Rightarrow> Inl KeyError
      | kv # rest \<Rightarrow> Inr (kv, c\<lparr>entries := rest\<rparr>))"

text \<open>
  \<^verbatim>\<open>LRUFileCache.popitem\<close>: pop the least recently used pair from the index, log the
  eviction, and delete the backing file if it is still a file. The method has no
  \<^verbatim>\<open>return\<close>, so its value is \<^verbatim>\<open>None\<close>.
\<close>

definition isfile :: "state \<Rightarrow> path \<Rightarrow> bool" where
  "isfile st p = (files st p \<noteq> None)"

definition os_remove :: "path \<Rightarrow> state \<Rightarrow> (exn + unit) \<times> state" where
  "os_remove p st =
     (if files st p = None then (Inl FileNotFoundError, st)
      else (Inr (), st\<lparr>files := (files st)(p := None)\<rparr>))"

definition popitem :: "state \<Rightarrow> (exn + unit) \<times> state" where
  "popitem st =
     (case lru_popitem (cache st) of
        Inl e \<Rightarrow> (Inl e, st)
      | Inr ((k, v), c') \<Rightarrow>
          (let st1 = st\<lparr>cache := c', log := log st @ [LogEvicting k]\<rparr>
           in if isfile st1 v then os_remove v st1 else (Inr (), st1)))"

text \<open>
  Modelled from the spec: \<^verbatim>\<open>cache[key] = value\<close> of the missing base class. A value larger
  than the whole cache is refused with \<open>ValueError\<close>. When the key is new, the cache
  calls \<^verbatim>\<open>self.popitem()\<close> (the override above) while the new entry does not fit; the
  entry is then written and marked most recently used.
\<close>

function evict_until_fits :: "state \<Rightarrow> (exn + unit) \<times> state" where
  "evict_until_fits st =
     (if length (entries (cache st)) + 1 > maxsize (cache st) then
        (case popitem st of
           (Inl e, st') \<Rightarrow> (Inl e, st')
         | (Inr u, st') \<Rightarrow> evict_until_fits st')
      else (Inr (), st))"
  by pat_completeness auto

termination
  by (relation "measure (\<lambda>st. length (entries (cache st)))")
     (auto simp: popitem_def lru_popitem_def os_remove_def isfile_def Let_def
           split: list.splits if_splits prod.splits)

declare evict_until_fits.simps [simp del]

definition setitem :: "fingerprint \<Rightarrow> path \<Rightarrow> state \<Rightarrow> (exn + unit) \<times> state" where
  "setitem k v st =
     (if 1 > maxsize (cache st) then (Inl ValueError, st)
      else
        (case (if \<not> lru_contains (cache st) k then evict_until_fits st else (Inr (), st)) of
           (Inl e, st') \<Rightarrow> (Inl e, st')
         | (Inr u, st') \<Rightarrow>
             (Inr (), st'\<lparr>cache := (cache st')\<lparr>entries := lru_remove k (entries (cache st')) @ [(k, v)]\<rparr>\<rparr>)))"

section \<open>Settings\<close>

text \<open>
  The values that \<^verbatim>\<open>json.loads\<close> and the request decoder hand to the code. JSON numbers
  are represented by Python ints; numbers with a fraction or an exponent (Python floats)
  are not represented.
\<close>

datatype json =
    JNull
  | JBool bool
  | JInt int
  | JStr string
  | JList "json list"
  | JDict "(string \<times> json) list"

record kwargs =
  min_bpm :: json
  max_bpm :: json

text \<open>
  The Python operations that \<^verbatim>\<open>_settings_to_kwargs\<close> applies to its argument, with the
  \<open>TypeError\<close> or \<open>AttributeError\<close> they raise on a value of the wrong type. A bool
  is an int in Python arithmetic.
\<close>

definition is_substring :: "string \<Rightarrow> string \<Rightarrow> bool" where
  "is_substring k s = list_ex (\<lambda>i. take (length k) (drop i s) = k) [0..<Suc (length s)]"

fun py_in :: "string \<Rightarrow> json \<Rightarrow> exn + bool" where
  "py_in k (JDict kvs) = Inr (map_of kvs k \<noteq> None)"
| "py_in k (JList xs) = Inr (List.member xs (JStr k))"
| "py_in k (JStr s) = Inr (is_substring k s)"
| "py_in k v = Inl TypeError"

fun py_getitem :: "json \<Rightarrow> string \<Rightarrow> exn + json" where
  "py_getitem (JDict kvs) k = (case map_of kvs k of None \<Rightarrow> Inl KeyError | Some v \<Rightarrow> Inr v)"
| "py_getitem v k = Inl TypeError"

fun py_pop :: "json \<Rightarrow> string \<Rightarrow> json \<Rightarrow> exn + json" where
  "py_pop (JDict kvs) k dflt = (case map_of kvs k of None \<Rightarrow> Inr dflt | Some v \<Rightarrow> Inr v)"
| "py_pop (JList xs) k dflt = Inl TypeError"
| "py_pop v k dflt = Inl AttributeError"

fun as_int :: "json \<Rightarrow> int option" where
  "as_int (JInt i) = Some i"
| "as_int (JBool b) = Some (if b then 1 else 0)"
| "as_int v = None"

definition py_sub :: "json \<Rightarrow> json \<Rightarrow> exn + json" where
  "py_sub x y =
     (case (as_int x, as_int y) of
        (Some a, Some b) \<Rightarrow> Inr (JInt (a - b))
      | _ \<Rightarrow> Inl TypeError)"

fun py_add :: "json \<Rightarrow> json \<Rightarrow> exn + json" where
  "py_add (JStr a) (JStr b) = Inr (JStr (a @ b))"
| "py_add (JList a) (JList b) = Inr (JList (a @ b))"
| "py_add x y =
     (case (as_int x, as_int y) of
        (Some a, Some b) \<Rightarrow> Inr (JInt (a + b))
      | _ \<Rightarrow> Inl TypeError)"

text \<open>
  \<^verbatim>\<open>_settings_to_kwargs\<close>. The source also removes \<open>drift\<close> from the caller's dict;
  no caller reads the dict again, so only the returned keyword arguments are modelled.
\<close>

definition settings_to_kwargs :: "json \<Rightarrow> exn + kwargs" where
  "settings_to_kwargs setts =
     (case py_in ''suggested_bpm'' setts of
        Inl e \<Rightarrow> Inl e
      | Inr False \<Rightarrow> Inr \<lparr>min_bpm = JInt 60, max_bpm = JInt 300\<rparr>
      | Inr True \<Rightarrow>
          (case py_getitem setts ''suggested_bpm'' of
             Inl e \<Rightarrow> Inl e
           | Inr suggested_bpm \<Rightarrow>
               (case py_pop setts ''drift'' (JInt 15) of
                  Inl e \<Rightarrow> Inl e
                | Inr drift \<Rightarrow>
                    (case py_sub suggested_bpm drift of
                       Inl e \<Rightarrow> Inl e
                     | Inr lo \<Rightarrow>
                         (case py_add suggested_bpm drift of
                            Inl e \<Rightarrow> Inl e
                          | Inr hi \<Rightarrow> Inr \<lparr>min_bpm = lo, max_bpm = hi\<rparr>)))))"

section \<open>External collaborators\<close>

text \<open>
  The libraries the service calls are parameters of the model: the streaming hash
  (\<^verbatim>\<open>xxhash.xxh32\<close>: a fresh accumulator, \<^verbatim>\<open>update\<close>, \<^verbatim>\<open>digest\<close>), \<^verbatim>\<open>pickle\<close>
  (\<open>None\<close> when loading raises), \<^verbatim>\<open>mutagen\<close> (the length in seconds of the audio,
  \<open>None\<close> when it raises \<open>MutagenError\<close>), the beat engine (beat detection, effect
  application, encoding, effect construction), \<^verbatim>\<open>json.loads\<close> (\<open>None\<close> when it raises
  the \<open>ValueError\<close> of malformed input) and the video downloader (\<open>None\<close> when it
  raises). \<open>'b\<close> is the type of beat analyses, \<open>'e\<close> of effects, \<open>'h\<close> of hash
  accumulators. The length is a real number: the only operation on it is the comparison
  with the integer \<open>MAX_LENGTH\<close>, which Python performs exactly.
\<close>

record ('b, 'e, 'h) env =
  xxh32_new :: 'h
  xxh32_update :: "'h \<Rightarrow> bytes \<Rightarrow> 'h"
  xxh32_digest :: "'h \<Rightarrow> fingerprint"
  pickle_dumps :: "'b \<Rightarrow> bytes"
  pickle_loads :: "bytes \<Rightarrow> 'b option"
  mp3_length :: "bytes \<Rightarrow> real option"
  load_beats_by_signal :: "kwargs \<Rightarrow> bytes \<Rightarrow> exn + 'b"
  beats_apply :: "'b \<Rightarrow> 'e \<Rightarrow> exn + 'b"
  beats_save :: "'b \<Rightarrow> exn + bytes"
  load_from_dict :: "json \<Rightarrow> exn + 'e"
  json_loads :: "string \<Rightarrow> json option"
  ydl_download :: "string \<Rightarrow> bytes option"

section \<open>Fingerprint and beat lookup\<close>

text \<open>
  The read loop of \<^verbatim>\<open>find_or_load_beats\<close>: \<^verbatim>\<open>file.read(512)\<close> returns the next 512 bytes
  of the file, fewer at its end, and the empty block once the end is reached.
\<close>

function hash_blocks :: "('b, 'e, 'h) env \<Rightarrow> 'h \<Rightarrow> bytes \<Rightarrow> 'h" where
  "hash_blocks env h rest =
     (let block = take 512 rest
      in if block \<noteq> [] then hash_blocks env (xxh32_update env h block) (drop 512 rest) else h)"
  by pat_completeness auto
termination
  by (relation "measure (\<lambda>(env, h, rest). length rest)") auto

declare hash_blocks.simps [simp del]

definition file_digest :: "('b, 'e, 'h) env \<Rightarrow> path \<Rightarrow> state \<Rightarrow> exn + fingerprint" where
  "file_digest env filename st =
     (case files st filename of
        None \<Rightarrow> Inl FileNotFoundError
      | Some content \<Rightarrow> Inr (xxh32_digest env (hash_blocks env (xxh32_new env) content)))"

text \<open>
  \<^verbatim>\<open>bm.Beats.from_song(filename, beat_loader=loader)\<close>: the engine reads the song and runs
  the loader on it. \<open>engine_calls\<close> counts these invocations.
\<close>

definition from_song :: "path \<Rightarrow> (bytes \<Rightarrow> exn + 'b) \<Rightarrow> state \<Rightarrow> (exn + 'b) \<times> state" where
  "from_song filename loader st =
     (let st1 = st\<lparr>engine_calls := engine_calls st + 1\<rparr>
      in case files st1 filename of
           None \<Rightarrow> (Inl FileNotFoundError, st1)
         | Some content \<Rightarrow> (loader content, st1))"

text \<open>The part of \<^verbatim>\<open>find_or_load_beats\<close> from the "miss" log record onwards.\<close>

definition create_beats ::
  "('b, 'e, 'h) env \<Rightarrow> path \<Rightarrow> (bytes \<Rightarrow> exn + 'b) \<Rightarrow> fingerprint \<Rightarrow> state \<Rightarrow> (exn + 'b) \<times> state" where
  "create_beats env filename loader d st =
     (case from_song filename loader (st\<lparr>log := log st @ [LogMiss d]\<rparr>) of
        (Inl e, st1) \<Rightarrow> (Inl e, st1)
      | (Inr beats, st1) \<Rightarrow>
          (let beat_filename = filename @ ''_beats.pkl'';
               st2 = st1\<lparr>files := (files st1)(beat_filename \<mapsto> pickle_dumps env beats)\<rparr>
           in case setitem d beat_filename st2 of
                (Inl e, st3) \<Rightarrow> (Inl e, st3)
              | (Inr u, st3) \<Rightarrow> (Inr beats, st3)))"

text \<open>
  \<^verbatim>\<open>find_or_load_beats\<close>. On a hit, \<^verbatim>\<open>cache[d]\<close> is evaluated first (and updates the
  recency order), then the backing file is opened and unpickled; any exception of these
  three steps is caught and logged, and control falls through to the miss path. The
  handler passes the exception as a stray format argument to \<^verbatim>\<open>logger.exception\<close>;
  the logging module reports such a record on stderr and raises nothing.
\<close>

definition find_or_load_beats ::
  "('b, 'e, 'h) env \<Rightarrow> path \<Rightarrow> (bytes \<Rightarrow> exn + 'b) \<Rightarrow> state \<Rightarrow> (exn + 'b) \<times> state" where
  "find_or_load_beats env filename loader st =
     (case file_digest env filename st of
        Inl e \<Rightarrow> (Inl e, st)
      | Inr d \<Rightarrow>
          if lru_contains (cache st) d then
            (let st1 = st\<lparr>log := log st @ [LogHit d]\<rparr>
             in case lru_getitem (cache st1) d of
                  Inl e \<Rightarrow> create_beats env filename loader d (st1\<lparr>log := log st1 @ [LogLoadFailed d]\<rparr>)
                | Inr (p, c') \<Rightarrow>
                    (let st2 = st1\<lparr>cache := c'\<rparr>
                     in case files st2 p of
                          None \<Rightarrow> create_beats env filename loader d (st2\<lparr>log := log st2 @ [LogLoadFailed d]\<rparr>)
                        | Some pickled \<Rightarrow>
                            (case pickle_loads env pickled of
                               None \<Rightarrow> create_beats env filename loader d (st2\<lparr>log := log st2 @ [LogLoadFailed d]\<rparr>)
                             | Some beats \<Rightarrow> (Inr beats, st2))))
          else create_beats env filename loader d st)"

section \<open>The pipeline\<close>

datatype response = StreamingResponse bytes string

definition MAX_LENGTH :: int where
  "MAX_LENGTH = 60 * 6 + 30"

text \<open>\<^verbatim>\<open>for e in effects: beats = beats.apply(e)\<close>\<close>

fun apply_effects :: "('b, 'e, 'h) env \<Rightarrow> 'e list \<Rightarrow> 'b \<Rightarrow> exn + 'b" where
  "apply_effects env [] beats = Inr beats"
| "apply_effects env (e # es) beats =
     (case beats_apply env beats e of
        Inl err \<Rightarrow> Inl err
      | Inr beats' \<Rightarrow> apply_effects env es beats')"

text \<open>
  \<^verbatim>\<open>MP3(filename)\<close>: mutagen reports a file it cannot open or parse as \<open>MutagenError\<close>.
\<close>

definition MP3 :: "('b, 'e, 'h) env \<Rightarrow> path \<Rightarrow> state \<Rightarrow> exn + real" where
  "MP3 env filename st =
     (case files st filename of
        None \<Rightarrow> Inl MutagenError
      | Some content \<Rightarrow>
          (case mp3_length env content of None \<Rightarrow> Inl MutagenError | Some len \<Rightarrow> Inr len))"

text \<open>
  \<^verbatim>\<open>process_song\<close>. The timing and the log records that do not concern the cache are
  left out. \<open>UNPROCESSABLE_ENTITY\<close> is status 422.
\<close>

definition process_song ::
  "('b, 'e, 'h) env \<Rightarrow> 'e list \<Rightarrow> path \<Rightarrow> kwargs \<Rightarrow> state \<Rightarrow> (error + response) \<times> state" where
  "process_song env effs filename processing_args st =
     (case MP3 env filename st of
        Inl e \<Rightarrow> (Inl (HTTPException 422 ''Failed to read song metadata''), st)
      | Inr len \<Rightarrow>
          if len > real_of_int MAX_LENGTH then
            (Inl (HTTPException 422 ''Song is too long (max is 390 seconds)''), st)
          else
            (case find_or_load_beats env filename (load_beats_by_signal env processing_args) st of
               (Inl e, st1) \<Rightarrow> (Inl (Uncaught e), st1)
             | (Inr beats, st1) \<Rightarrow>
                 (case apply_effects env effs beats of
                    Inl e \<Rightarrow> (Inl (Uncaught e), st1)
                  | Inr beats' \<Rightarrow>
                      (case beats_save env beats' of
                         Inl e \<Rightarrow> (Inl (Uncaught e), st1)
                       | Inr buf \<Rightarrow>
                           (case os_remove filename st1 of
                              (Inl e, st2) \<Rightarrow> (Inl (Uncaught e), st2)
                            | (Inr u, st2) \<Rightarrow> (Inr (StreamingResponse buf ''audio/mpeg''), st2))))))"

section \<open>The endpoints\<close>

text \<open>\<^verbatim>\<open>[bm.effects.load_from_dict(e) for e in ...]\<close>: the first exception ends the comprehension.\<close>

fun load_effects :: "('b, 'e, 'h) env \<Rightarrow> json list \<Rightarrow> exn + 'e list" where
  "load_effects env [] = Inr []"
| "load_effects env (j # js) =
     (case load_from_dict env j of
        Inl err \<Rightarrow> Inl err
      | Inr e \<Rightarrow> (case load_effects env js of Inl err \<Rightarrow> Inl err | Inr es \<Rightarrow> Inr (e # es)))"

text \<open>Iterating over a decoded JSON value: a dict yields its keys, a string its characters.\<close>

fun py_iter :: "json \<Rightarrow> exn + json list" where
  "py_iter (JList xs) = Inr xs"
| "py_iter (JDict kvs) = Inr (map (\<lambda>kv. JStr (fst kv)) kvs)"
| "py_iter (JStr s) = Inr (map (\<lambda>c. JStr [c]) s)"
| "py_iter v = Inl TypeError"

text \<open>
  \<^verbatim>\<open>YoutubeSongPayload\<close>: the request decoder guarantees that every effect and the
  settings are JSON objects.
\<close>

record youtube_song_payload =
  youtube_url :: string
  effects :: "(string \<times> json) list list"
  settings :: "(string \<times> json) list"

text \<open>
  \<^verbatim>\<open>process_song_from_youtube\<close> (\<^verbatim>\<open>POST /yt\<close>). \<open>base_filename\<close> is the fresh UUID the
  handler draws; the downloader leaves the audio at \<open>base_filename + ".mp3"\<close>.
  \<open>BAD_REQUEST\<close> is status 400.
\<close>

definition process_song_from_youtube ::
  "('b, 'e, 'h) env \<Rightarrow> youtube_song_payload \<Rightarrow> string \<Rightarrow> state \<Rightarrow> (error + response) \<times> state" where
  "process_song_from_youtube env payload base_filename st =
     (case load_effects env (map JDict (effects payload)) of
        Inl TypeError \<Rightarrow> (Inl (HTTPException 400 ''Invalid effect data''), st)
      | Inl e \<Rightarrow> (Inl (Uncaught e), st)
      | Inr effs \<Rightarrow>
          (case ydl_download env (youtube_url payload) of
             None \<Rightarrow> (Inl (HTTPException 400 ''Failed to download video''), st)
           | Some audio \<Rightarrow>
               (let st1 = st\<lparr>files := (files st)(base_filename @ ''.mp3'' \<mapsto> audio)\<rparr>
                in case settings_to_kwargs (JDict (settings payload)) of
                     Inl e \<Rightarrow> (Inl (Uncaught e), st1)
                   | Inr kw \<Rightarrow> process_song env effs (base_filename @ ''.mp3'') kw st1)))"

text \<open>
  The \<^verbatim>\<open>try\<close> block of \<^verbatim>\<open>process_song_from_file\<close>: decode the form field, split an
  object into its effects and settings, and build the effects. A \<open>TypeError\<close> of the
  comprehension, and a \<open>KeyError\<close> or \<open>ValueError\<close> of the whole block, become
  status 400; \<^verbatim>\<open>json.loads(None)\<close> (the field is absent) raises a \<open>TypeError\<close> that no
  handler catches.
\<close>

definition parse_effects :: "('b, 'e, 'h) env \<Rightarrow> string option \<Rightarrow> error + ('e list \<times> json)" where
  "parse_effects env form =
     (case form of
        None \<Rightarrow> Inl (Uncaught TypeError)
      | Some s \<Rightarrow>
          (case json_loads env s of
             None \<Rightarrow> Inl (HTTPException 400 ''Invalid effects'')
           | Some effect_data \<Rightarrow>
               (case (case effect_data of
                        JDict kvs \<Rightarrow>
                          (case map_of kvs ''effects'' of
                             None \<Rightarrow> Inl KeyError
                           | Some ed \<Rightarrow>
                               Inr (ed, case map_of kvs ''settings'' of None \<Rightarrow> JDict [] | Some v \<Rightarrow> v))
                      | _ \<Rightarrow> Inr (effect_data, JDict [])) of
                  Inl (e :: exn) \<Rightarrow> Inl (HTTPException 400 ''Missing effects'')
                | Inr (ed, setts) \<Rightarrow>
                    (case (case py_iter ed of Inl e \<Rightarrow> Inl e | Inr items \<Rightarrow> load_effects env items) of
                       Inl TypeError \<Rightarrow> Inl (HTTPException 400 ''Invalid effect data'')
                     | Inl KeyError \<Rightarrow> Inl (HTTPException 400 ''Missing effects'')
                     | Inl ValueError \<Rightarrow> Inl (HTTPException 400 ''Invalid effects'')
                     | Inl e \<Rightarrow> Inl (Uncaught e)
                     | Inr effs \<Rightarrow> Inr (effs, setts)))))"

text \<open>
  \<^verbatim>\<open>process_song_from_file\<close> (\<^verbatim>\<open>POST /\<close>). \<open>tmp\<close> is the name that
  \<^verbatim>\<open>NamedTemporaryFile\<close> picks; the file is created before the upload is read, and
  reading an absent upload raises \<open>AttributeError\<close>.
\<close>

definition process_song_from_file ::
  "('b, 'e, 'h) env \<Rightarrow> string option \<Rightarrow> bytes option \<Rightarrow> path \<Rightarrow> state \<Rightarrow> (error + response) \<times> state" where
  "process_song_from_file env form song tmp st =
     (case parse_effects env form of
        Inl e \<Rightarrow> (Inl e, st)
      | Inr (effs, setts) \<Rightarrow>
          if length effs > 5 then (Inl (HTTPException 400 ''Too many effects (max is 5)''), st)
          else if length effs < 1 then (Inl (HTTPException 400 ''Not enough effects (min is 1)''), st)
          else
            (case song of
               None \<Rightarrow> (Inl (Uncaught AttributeError), st\<lparr>files := (files st)(tmp \<mapsto> [])\<rparr>)
             | Some audio \<Rightarrow>
                 (let st1 = st\<lparr>files := (files st)(tmp \<mapsto> audio)\<rparr>
                  in case settings_to_kwargs setts of
                       Inl e \<Rightarrow> (Inl (Uncaught e), st1)
                     | Inr kw \<Rightarrow> process_song env effs tmp kw st1)))"

section \<open>A concrete instance of the collaborators\<close>

text \<open>
  A small executable instance of the external libraries, on which the model can be run:
  the first two bytes of a song are its length in seconds, a beat analysis is a byte
  string that starts with the two BPM bounds it was computed under, an effect is one byte
  appended to the analysis (the effect 0 fails), a pickle is the analysis behind a marker
  byte, and the hash is a polynomial checksum.
\<close>

definition demo_env :: "(bytes, byte, fingerprint) env" where
  "demo_env = \<lparr>
     xxh32_new = 0,
     xxh32_update = (\<lambda>h block. foldl (\<lambda>a b. a * 31 + word_of_nat (unat b)) h block),
     xxh32_digest = (\<lambda>h. h),
     pickle_dumps = (\<lambda>b. 128 # b),
     pickle_loads = (\<lambda>bs. case bs of [] \<Rightarrow> None | t # b \<Rightarrow> if t = 128 then Some b else None),
     mp3_length =
       (\<lambda>c. case c of
              b0 # b1 # rest \<Rightarrow> Some (real (256 * unat b0 + unat b1))
            | _ \<Rightarrow> None),
     load_beats_by_signal =
       (\<lambda>kw c. case (as_int (min_bpm kw), as_int (max_bpm kw)) of
                  (Some lo, Some hi) \<Rightarrow> Inr (word_of_int lo # word_of_int hi # c)
                | _ \<Rightarrow> Inl EngineError),
     beats_apply = (\<lambda>b e. if e = 0 then Inl EngineError else Inr (b @ [e])),
     beats_save = (\<lambda>b. Inr b),
     load_from_dict =
       (\<lambda>j. case py_getitem j ''type'' of
              Inl e \<Rightarrow> Inl e
            | Inr (JInt i) \<Rightarrow> Inr (word_of_int i)
            | Inr v \<Rightarrow> Inl ValueError),
     json_loads = (\<lambda>s. if s = ''[]'' then Some (JList []) else None),
     ydl_download = (\<lambda>url. if url = [] then None else Some [1, 2, 3])
   \<rparr>"

section \<open>Invariant, runs and sample inputs\<close>

text \<open>
  The index is a dict: no fingerprint occurs twice, and the cache never holds more than
  \<open>maxsize\<close> entries.
\<close>

definition cache_inv :: "lru_cache \<Rightarrow> bool" where
  "cache_inv c = (distinct (map fst (entries c)) \<and> length (entries c) \<le> maxsize c)"

text \<open>A sequence of store operations \<^verbatim>\<open>cache[k] = v\<close>, run from left to right.\<close>

fun store_all :: "(fingerprint \<times> path) list \<Rightarrow> state \<Rightarrow> state" where
  "store_all [] st = st"
| "store_all (kv # ops) st = store_all ops (snd (setitem (fst kv) (snd kv) st))"

text \<open>Eight stores of distinct fingerprints, which fill the cache.\<close>

definition eight_stores :: "(fingerprint \<times> path) list" where
  "eight_stores = [(1, ''a''), (2, ''b''), (3, ''c''), (4, ''d''), (5, ''e''), (6, ''f''), (7, ''g''), (8, ''h'')]"


definition demo_corrupt_state :: state where
  "demo_corrupt_state =
     \<lparr>cache = \<lparr>entries = [(1026, ''old.pkl'')], maxsize = 8\<rparr>,
      files = [''a.mp3'' \<mapsto> [1, 2, 3], ''old.pkl'' \<mapsto> [0]],
      log = [], engine_calls = 0\<rparr>"

definition demo_full_state :: state where
  "demo_full_state =
     \<lparr>cache = \<lparr>entries = [(1026, ''p0''), (2, ''b''), (3, ''c''), (4, ''d''), (5, ''e''),
                          (6, ''f''), (7, ''g''), (8, ''h'')], maxsize = 8\<rparr>,
      files = [''a.mp3'' \<mapsto> [1, 2, 3], ''p0'' \<mapsto> [128, 9]],
      log = [], engine_calls = 0\<rparr>"

text \<open>
  The spec's reading of the read loop: the content cut into consecutive blocks of \<open>n\<close>
  bytes, the last one shorter when the length is not a multiple of \<open>n\<close>.
\<close>

function blocks :: "nat \<Rightarrow> 'a list \<Rightarrow> 'a list list" where
  "blocks n xs = (if n = 0 \<or> xs = [] then [] else take n xs # blocks n (drop n xs))"
  by pat_completeness auto
termination
  by (relation "measure (\<lambda>(n, xs). length xs)") auto

declare blocks.simps [simp del]

text \<open>Two files of 600 equal bytes under different names.\<close>

definition demo_long_song :: state where
  "demo_long_song = initial_state [''x.mp3'' \<mapsto> replicate 600 7, ''y.mp3'' \<mapsto> replicate 600 7]"

text \<open>
  Requests on which the pipeline is run: a song of exactly 390 seconds and one of 391
  seconds, a BPM window, and a \<^verbatim>\<open>POST /yt\<close> payload with a given effect chain.
\<close>

definition demo_song_390 :: state where
  "demo_song_390 = initial_state [''s.mp3'' \<mapsto> [1, 134, 5]]"

definition demo_song_391 :: state where
  "demo_song_391 = initial_state [''s.mp3'' \<mapsto> [1, 135, 5]]"

definition demo_kwargs :: kwargs where
  "demo_kwargs = \<lparr>min_bpm = JInt 60, max_bpm = JInt 200\<rparr>"

definition demo_payload :: "(string \<times> json) list list \<Rightarrow> youtube_song_payload" where
  "demo_payload effs = \<lparr>youtube_url = ''u'', effects = effs, settings = []\<rparr>"

definition one_effect :: "(string \<times> json) list" where
  "one_effect = [(''type'', JInt 1)]"

text \<open>
  Eight uploads in a row, as \<^verbatim>\<open>process_song_from_file\<close> runs them: the upload is
  written under its temporary name and handed to \<^verbatim>\<open>process_song\<close>. \<open>demo_reuse_state\<close>
  is the state they leave, with two further uploads of the same bytes written to disk, the
  first under the temporary name \<open>t1\<close> again; and two BPM windows.
\<close>

fun demo_uploads :: "(path \<times> bytes) list \<Rightarrow> state \<Rightarrow> state" where
  "demo_uploads [] st = st"
| "demo_uploads (req # reqs) st =
     demo_uploads reqs
       (snd (process_song demo_env [1] (fst req) demo_kwargs
               (st\<lparr>files := (files st)(fst req \<mapsto> snd req)\<rparr>)))"

definition eight_uploads :: "(path \<times> bytes) list" where
  "eight_uploads = [(''t1'', [0, 1]), (''t2'', [0, 2]), (''t3'', [0, 3]), (''t4'', [0, 4]),
                    (''t5'', [0, 5]), (''t6'', [0, 6]), (''t7'', [0, 7]), (''t8'', [0, 8])]"

definition demo_reuse_state :: state where
  "demo_reuse_state =
     \<lparr>cache = \<lparr>entries = [(1, ''t1_beats.pkl''), (2, ''t2_beats.pkl''), (3, ''t3_beats.pkl''),
                          (4, ''t4_beats.pkl''), (5, ''t5_beats.pkl''), (6, ''t6_beats.pkl''),
                          (7, ''t7_beats.pkl''), (8, ''t8_beats.pkl'')], maxsize = 8\<rparr>,
      files = [''t1_beats.pkl'' \<mapsto> [128, 60, 200, 0, 1], ''t2_beats.pkl'' \<mapsto> [128, 60, 200, 0, 2],
               ''t3_beats.pkl'' \<mapsto> [128, 60, 200, 0, 3], ''t4_beats.pkl'' \<mapsto> [128, 60, 200, 0, 4],
               ''t5_beats.pkl'' \<mapsto> [128, 60, 200, 0, 5], ''t6_beats.pkl'' \<mapsto> [128, 60, 200, 0, 6],
               ''t7_beats.pkl'' \<mapsto> [128, 60, 200, 0, 7], ''t8_beats.pkl'' \<mapsto> [128, 60, 200, 0, 8],
               ''t1'' \<mapsto> [1, 2, 3], ''t9'' \<mapsto> [1, 2, 3]],
      log = [LogMiss 1, LogMiss 2, LogMiss 3, LogMiss 4, LogMiss 5, LogMiss 6, LogMiss 7, LogMiss 8],
      engine_calls = 8\<rparr>"



section \<open>The BPM search window\<close>

text \<open>
  C8. For a settings object, the derived BPM search window is
  \<open>[suggested_bpm - drift, suggested_bpm + drift]\<close> when \<open>suggested_bpm\<close> is present,
  with \<open>drift\<close> defaulting to 15 when absent, and exactly \<open>[60, 300]\<close> when
  \<open>suggested_bpm\<close> is absent. Both fields are ints, as the spec types them.
\<close>

theorem settings_to_kwargs_window:
  "(map_of kvs ''suggested_bpm'' = None \<longrightarrow>
      settings_to_kwargs (JDict kvs) = Inr \<lparr>min_bpm = JInt 60, max_bpm = JInt 300\<rparr>) \<and>
   (map_of kvs ''suggested_bpm'' = Some (JInt s) \<and> map_of kvs ''drift'' = None \<longrightarrow>
      settings_to_kwargs (JDict kvs) = Inr \<lparr>min_bpm = JInt (s - 15), max_bpm = JInt (s + 15)\<rparr>) \<and>
   (map_of kvs ''suggested_bpm'' = Some (JInt s) \<and> map_of kvs ''drift'' = Some (JInt d) \<longrightarrow>
      settings_to_kwargs (JDict kvs) = Inr \<lparr>min_bpm = JInt (s - d), max_bpm = JInt (s + d)\<rparr>)"
  by (simp add: settings_to_kwargs_def py_sub_def)

theorem settings_to_kwargs_window_witness:
  "settings_to_kwargs (JDict []) = Inr \<lparr>min_bpm = JInt 60, max_bpm = JInt 300\<rparr> \<and>
   settings_to_kwargs (JDict [(''suggested_bpm'', JInt 120)]) =
     Inr \<lparr>min_bpm = JInt 105, max_bpm = JInt 135\<rparr> \<and>
   settings_to_kwargs (JDict [(''suggested_bpm'', JInt 120), (''drift'', JInt 5)]) =
     Inr \<lparr>min_bpm = JInt 115, max_bpm = JInt 125\<rparr>"
proof -
  have absent: "map_of ([] :: (string \<times> json) list) ''suggested_bpm'' = None"
    by simp
  have only_bpm:
    "map_of [(''suggested_bpm'', JInt 120)] ''suggested_bpm'' = Some (JInt 120) \<and>
     map_of [(''suggested_bpm'', JInt 120)] ''drift'' = None"
    by simp
  have both:
    "map_of [(''suggested_bpm'', JInt 120), (''drift'', JInt 5)] ''suggested_bpm'' = Some (JInt 120) \<and>
     map_of [(''suggested_bpm'', JInt 120), (''drift'', JInt 5)] ''drift'' = Some (JInt 5)"
    by simp
  show ?thesis
    using absent only_bpm both
      settings_to_kwargs_window [of "[]" 0 0]
      settings_to_kwargs_window [of "[(''suggested_bpm'', JInt 120)]" 120 0]
      settings_to_kwargs_window [of "[(''suggested_bpm'', JInt 120), (''drift'', JInt 5)]" 120 5]
    by simp
qed

section \<open>The cache: bound and eviction\<close>

lemma popitem_cons:
  "popitem st =
     (Inr (), st\<lparr>cache := (cache st)\<lparr>entries := rest\<rparr>,
                 log := log st @ [LogEvicting k],
                 files := (files st)(v := None)\<rparr>)"
  if "entries (cache st) = (k, v) # rest"
proof (cases "files st v")
  case None
  then have "(files st)(v := None) = files st"
    by (simp add: fun_upd_idem)
  with None that show ?thesis
    by (simp add: popitem_def lru_popitem_def isfile_def os_remove_def)
next
  case (Some content)
  with that show ?thesis
    by (simp add: popitem_def lru_popitem_def isfile_def os_remove_def)
qed

lemma popitem_empty:
  "entries (cache st) = [] \<Longrightarrow> popitem st = (Inl KeyError, st)"
  by (simp add: popitem_def lru_popitem_def)

lemma lru_contains_iff: "lru_contains c k \<longleftrightarrow> k \<in> fst ` set (entries c)"
  by (simp add: lru_contains_def map_of_eq_None_iff)

lemma lru_remove_absent: "k \<notin> fst ` set es \<Longrightarrow> lru_remove k es = es"
  by (induction es) (auto simp: lru_remove_def)

lemma lru_remove_keys: "fst ` set (lru_remove k es) = fst ` set es - {k}"
  by (auto simp: lru_remove_def)

lemma lru_remove_distinct: "distinct (map fst es) \<Longrightarrow> distinct (map fst (lru_remove k es))"
  by (simp add: lru_remove_def distinct_map_filter)

lemma lru_remove_length:
  "distinct (map fst es) \<Longrightarrow> k \<in> fst ` set es \<Longrightarrow> Suc (length (lru_remove k es)) = length es"
proof (induction es)
  case Nil
  then show ?case by simp
next
  case (Cons e es)
  show ?case
  proof (cases "fst e = k")
    case True
    with Cons.prems have "k \<notin> fst ` set es" by auto
    then have "lru_remove k es = es" by (rule lru_remove_absent)
    with True show ?thesis by (simp add: lru_remove_def)
  next
    case False
    with Cons show ?thesis by (auto simp: lru_remove_def)
  qed
qed

lemma evict_until_fits_room:
  "length (entries (cache st)) < maxsize (cache st) \<Longrightarrow> evict_until_fits st = (Inr (), st)"
  by (simp add: evict_until_fits.simps)

lemma evict_until_fits_full:
  assumes "entries (cache st) = (k, v) # rest" and "length (entries (cache st)) = maxsize (cache st)"
  shows "evict_until_fits st =
     (Inr (), st\<lparr>cache := (cache st)\<lparr>entries := rest\<rparr>,
                 log := log st @ [LogEvicting k],
                 files := (files st)(v := None)\<rparr>)"
proof -
  let ?st' = "st\<lparr>cache := (cache st)\<lparr>entries := rest\<rparr>, log := log st @ [LogEvicting k],
                 files := (files st)(v := None)\<rparr>"
  have "length (entries (cache ?st')) < maxsize (cache ?st')"
    using assms by simp
  then have "evict_until_fits ?st' = (Inr (), ?st')"
    by (rule evict_until_fits_room)
  moreover have "evict_until_fits st = evict_until_fits ?st'"
    using assms by (subst evict_until_fits.simps) (simp add: popitem_cons)
  ultimately show ?thesis by simp
qed


lemma setitem_present:
  assumes "lru_contains (cache st) k" and "1 \<le> maxsize (cache st)"
  shows "setitem k v st =
     (Inr (), st\<lparr>cache := (cache st)\<lparr>entries := lru_remove k (entries (cache st)) @ [(k, v)]\<rparr>\<rparr>)"
  using assms by (simp add: setitem_def)

lemma setitem_room:
  assumes "\<not> lru_contains (cache st) k" and "length (entries (cache st)) < maxsize (cache st)"
  shows "setitem k v st =
     (Inr (), st\<lparr>cache := (cache st)\<lparr>entries := entries (cache st) @ [(k, v)]\<rparr>\<rparr>)"
proof -
  have "lru_remove k (entries (cache st)) = entries (cache st)"
    using assms(1) by (simp add: lru_contains_iff lru_remove_absent)
  with assms show ?thesis
    by (simp add: setitem_def evict_until_fits_room)
qed

lemma setitem_full:
  assumes "\<not> lru_contains (cache st) k" and "entries (cache st) = (k0, v0) # rest"
    and "length (entries (cache st)) = maxsize (cache st)"
  shows "setitem k v st =
     (Inr (), st\<lparr>cache := (cache st)\<lparr>entries := rest @ [(k, v)]\<rparr>,
                 log := log st @ [LogEvicting k0],
                 files := (files st)(v0 := None)\<rparr>)"
proof -
  have "k \<notin> fst ` set rest"
    using assms(1,2) by (simp add: lru_contains_iff)
  then have "lru_remove k rest = rest"
    by (rule lru_remove_absent)
  moreover have "1 \<le> maxsize (cache st)"
    using assms(2,3) by simp
  ultimately show ?thesis
    using assms by (simp add: setitem_def evict_until_fits_full)
qed

lemma setitem_inv:
  assumes "cache_inv (cache st)" and "1 \<le> maxsize (cache st)"
  shows "fst (setitem k v st) = Inr () \<and> cache_inv (cache (snd (setitem k v st))) \<and>
         maxsize (cache (snd (setitem k v st))) = maxsize (cache st)"
proof (cases "lru_contains (cache st) k")
  case True
  then have "k \<in> fst ` set (entries (cache st))"
    by (simp add: lru_contains_iff)
  with assms(1) have "Suc (length (lru_remove k (entries (cache st)))) = length (entries (cache st))"
    by (simp add: cache_inv_def lru_remove_length)
  moreover have "distinct (map fst (lru_remove k (entries (cache st))))"
    using assms(1) by (simp add: cache_inv_def lru_remove_distinct)
  moreover have "k \<notin> fst ` set (lru_remove k (entries (cache st)))"
    by (simp add: lru_remove_keys)
  ultimately show ?thesis
    using assms True by (simp add: setitem_present cache_inv_def)
next
  case False
  then have fresh: "k \<notin> fst ` set (entries (cache st))"
    by (simp add: lru_contains_iff)
  show ?thesis
  proof (cases "length (entries (cache st)) < maxsize (cache st)")
    case True
    with assms False fresh show ?thesis
      by (simp add: setitem_room cache_inv_def)
  next
    case full: False
    with assms have len: "length (entries (cache st)) = maxsize (cache st)"
      by (simp add: cache_inv_def)
    with assms(2) obtain k0 v0 rest where es: "entries (cache st) = (k0, v0) # rest"
      by (cases "entries (cache st)") auto
    with assms(1) fresh len show ?thesis
      by (simp add: setitem_full [OF False es len] cache_inv_def)
  qed
qed

lemma store_all_inv:
  "cache_inv (cache st) \<Longrightarrow> 1 \<le> maxsize (cache st) \<Longrightarrow>
   cache_inv (cache (store_all ops st)) \<and> maxsize (cache (store_all ops st)) = maxsize (cache st)"
proof (induction ops arbitrary: st)
  case Nil
  then show ?case by simp
next
  case (Cons kv ops)
  from setitem_inv [OF Cons.prems, of "fst kv" "snd kv"]
  have "cache_inv (cache (snd (setitem (fst kv) (snd kv) st)))"
    and "maxsize (cache (snd (setitem (fst kv) (snd kv) st))) = maxsize (cache st)"
    by simp_all
  with Cons.IH [of "snd (setitem (fst kv) (snd kv) st)"] Cons.prems(2) show ?case
    by simp
qed

lemma initial_state_inv:
  "cache_inv (cache (initial_state fs)) \<and> maxsize (cache (initial_state fs)) = 8"
  by (simp add: initial_state_def initial_cache_def cache_inv_def)

text \<open>
  C3. After any sequence of store operations on the initially empty cache, the cache holds
  at most 8 entries; and when it holds 8, storing a fingerprint that is not cached evicts
  exactly the least recently used entry (the head of the order): the insert succeeds, the
  remaining seven entries keep their order, the new entry is most recently used, one
  eviction is logged and the evicted backing file is deleted.
\<close>

theorem cache_bounded_lru_eviction:
  "length (entries (cache (store_all ops (initial_state fs)))) \<le> 8 \<and>
   (length (entries (cache (store_all ops (initial_state fs)))) = 8 \<and>
    \<not> lru_contains (cache (store_all ops (initial_state fs))) k \<longrightarrow>
      (\<exists>k0 v0 rest.
         entries (cache (store_all ops (initial_state fs))) = (k0, v0) # rest \<and>
         setitem k v (store_all ops (initial_state fs)) =
           (Inr (), (store_all ops (initial_state fs))
              \<lparr>cache := (cache (store_all ops (initial_state fs)))\<lparr>entries := rest @ [(k, v)]\<rparr>,
               log := log (store_all ops (initial_state fs)) @ [LogEvicting k0],
               files := (files (store_all ops (initial_state fs)))(v0 := None)\<rparr>)))"
proof -
  let ?st = "store_all ops (initial_state fs)"
  have inv: "cache_inv (cache ?st)" and cap: "maxsize (cache ?st) = 8"
    using store_all_inv [of "initial_state fs" ops] initial_state_inv [of fs] by simp_all
  then have bound: "length (entries (cache ?st)) \<le> 8"
    by (simp add: cache_inv_def)
  have evict: "\<exists>k0 v0 rest. entries (cache ?st) = (k0, v0) # rest \<and>
      setitem k v ?st =
        (Inr (), ?st\<lparr>cache := (cache ?st)\<lparr>entries := rest @ [(k, v)]\<rparr>,
                     log := log ?st @ [LogEvicting k0],
                     files := (files ?st)(v0 := None)\<rparr>)"
    if full: "length (entries (cache ?st)) = 8" and new: "\<not> lru_contains (cache ?st) k"
  proof -
    from full obtain k0 v0 rest where es: "entries (cache ?st) = (k0, v0) # rest"
      by (cases "entries (cache ?st)") auto
    from full cap have "length (entries (cache ?st)) = maxsize (cache ?st)"
      by simp
    from setitem_full [OF new es this] es show ?thesis
      by blast
  qed
  from bound evict show ?thesis
    by blast
qed

text \<open>
  C4. After an eviction, the evicted entry's backing file does not exist and the evicted
  fingerprint is no longer in the cache. The eviction returns normally whether or not the
  backing file still existed: a file that is already gone raises nothing.
\<close>

theorem popitem_evicts:
  assumes "cache_inv (cache st)" and "entries (cache st) = (k, v) # rest"
  shows "fst (popitem st) = Inr () \<and>
         files (snd (popitem st)) v = None \<and>
         \<not> lru_contains (cache (snd (popitem st))) k \<and>
         entries (cache (snd (popitem st))) = rest \<and>
         log (snd (popitem st)) = log st @ [LogEvicting k]"
proof -
  from assms have "k \<notin> fst ` set rest"
    by (auto simp: cache_inv_def)
  with popitem_cons [OF assms(2)] show ?thesis
    by (simp add: lru_contains_iff)
qed


lemma eight_stores_state:
  "store_all eight_stores (initial_state [''a'' \<mapsto> [1]]) =
     \<lparr>cache = \<lparr>entries = eight_stores, maxsize = 8\<rparr>, files = [''a'' \<mapsto> [1]], log = [], engine_calls = 0\<rparr>"
  by (simp add: eight_stores_def initial_state_def initial_cache_def setitem_def
        evict_until_fits.simps lru_contains_def lru_remove_def)

theorem cache_bounded_lru_eviction_witness:
  "length (entries (cache (store_all eight_stores (initial_state [''a'' \<mapsto> [1]])))) = 8 \<and>
   \<not> lru_contains (cache (store_all eight_stores (initial_state [''a'' \<mapsto> [1]]))) 9 \<and>
   setitem 9 ''i'' (store_all eight_stores (initial_state [''a'' \<mapsto> [1]])) =
     (Inr (), \<lparr>cache = \<lparr>entries = [(2, ''b''), (3, ''c''), (4, ''d''), (5, ''e''), (6, ''f''),
                                        (7, ''g''), (8, ''h''), (9, ''i'')], maxsize = 8\<rparr>,
               files = Map.empty, log = [LogEvicting 1], engine_calls = 0\<rparr>)"
proof -
  let ?st = "store_all eight_stores (initial_state [''a'' \<mapsto> [1]])"
  have full: "length (entries (cache ?st)) = 8"
    by (simp add: eight_stores_state) (simp add: eight_stores_def)
  have new: "\<not> lru_contains (cache ?st) 9"
    by (simp add: eight_stores_state) (simp add: eight_stores_def lru_contains_def)
  from cache_bounded_lru_eviction [of eight_stores "[''a'' \<mapsto> [1]]" 9 "''i''"] full new
  obtain k0 v0 rest where es: "entries (cache ?st) = (k0, v0) # rest"
    and set: "setitem 9 ''i'' ?st =
           (Inr (), ?st\<lparr>cache := (cache ?st)\<lparr>entries := rest @ [(9, ''i'')]\<rparr>,
               log := log ?st @ [LogEvicting k0],
               files := (files ?st)(v0 := None)\<rparr>)"
    by blast
  from es have "k0 = 1" "v0 = ''a''" "rest = tl eight_stores"
    by (simp_all add: eight_stores_state) (simp_all add: eight_stores_def)
  with set full new show ?thesis
    by (simp add: eight_stores_state) (simp add: eight_stores_def)
qed

theorem popitem_evicts_witness:
  "cache_inv \<lparr>entries = [(1, ''a''), (2, ''b'')], maxsize = 8\<rparr> \<and>
   files \<lparr>cache = \<lparr>entries = [(1, ''a''), (2, ''b'')], maxsize = 8\<rparr>,
          files = [''b'' \<mapsto> [7]], log = [], engine_calls = 0\<rparr> ''a'' = None \<and>
   fst (popitem \<lparr>cache = \<lparr>entries = [(1, ''a''), (2, ''b'')], maxsize = 8\<rparr>,
                 files = [''b'' \<mapsto> [7]], log = [], engine_calls = 0\<rparr>) = Inr () \<and>
   \<not> lru_contains (cache (snd (popitem
        \<lparr>cache = \<lparr>entries = [(1, ''a''), (2, ''b'')], maxsize = 8\<rparr>,
         files = [''b'' \<mapsto> [7]], log = [], engine_calls = 0\<rparr>))) 1 \<and>
   entries (cache (snd (popitem
        \<lparr>cache = \<lparr>entries = [(1, ''a''), (2, ''b'')], maxsize = 8\<rparr>,
         files = [''b'' \<mapsto> [7]], log = [], engine_calls = 0\<rparr>))) = [(2, ''b'')]"
proof -
  let ?st = "\<lparr>cache = \<lparr>entries = [(1, ''a''), (2, ''b'')], maxsize = 8\<rparr>,
            files = [''b'' \<mapsto> [7]], log = [], engine_calls = 0\<rparr>"
  have inv: "cache_inv (cache ?st)"
    by (simp add: cache_inv_def)
  have es: "entries (cache ?st) = (1, ''a'') # [(2, ''b'')]"
    by simp
  from popitem_evicts [OF inv es] inv show ?thesis
    by simp
qed

section \<open>The beat lookup\<close>

lemmas demo_run =
  process_song_def MP3_def MAX_LENGTH_def find_or_load_beats_def file_digest_def
  hash_blocks.simps lru_contains_def lru_getitem_def create_beats_def from_song_def
  setitem_def evict_until_fits.simps lru_remove_def os_remove_def demo_env_def
  initial_state_def initial_cache_def Let_def

lemma map_of_snoc_new:
  "k \<notin> fst ` set es \<Longrightarrow> map_of (es @ [(k, v)]) k = Some v"
proof -
  assume "k \<notin> fst ` set es"
  then have "map_of es k = None"
    by (simp add: map_of_eq_None_iff)
  then show ?thesis
    by (simp add: map_add_def)
qed

lemma map_of_lru_touch:
  "map_of (lru_remove k es @ [(k, v)]) k = Some v"
  by (rule map_of_snoc_new) (simp add: lru_remove_keys)

lemma lru_getitem_present:
  "map_of (entries c) k = Some p \<Longrightarrow>
   lru_getitem c k = Inr (p, c\<lparr>entries := lru_remove k (entries c) @ [(k, p)]\<rparr>)"
  by (simp add: lru_getitem_def)

lemma create_beats_unfold:
  "create_beats env filename loader d st =
     (case files st filename of
        None \<Rightarrow> (Inl FileNotFoundError, st\<lparr>log := log st @ [LogMiss d], engine_calls := engine_calls st + 1\<rparr>)
      | Some content \<Rightarrow>
          (case loader content of
             Inl e \<Rightarrow> (Inl e, st\<lparr>log := log st @ [LogMiss d], engine_calls := engine_calls st + 1\<rparr>)
           | Inr beats \<Rightarrow>
               (case setitem d (filename @ ''_beats.pkl'')
                       (st\<lparr>log := log st @ [LogMiss d], engine_calls := engine_calls st + 1,
                           files := (files st)(filename @ ''_beats.pkl'' \<mapsto> pickle_dumps env beats)\<rparr>) of
                  (Inl e, st3) \<Rightarrow> (Inl e, st3)
                | (Inr u, st3) \<Rightarrow> (Inr beats, st3))))"
  by (simp add: create_beats_def from_song_def Let_def split: option.splits sum.splits)

text \<open>What a store does to the index, the files and the engine counter.\<close>

lemma setitem_effect:
  assumes inv: "cache_inv (cache st)" and cap: "1 \<le> maxsize (cache st)"
  shows "fst (setitem k v st) = Inr () \<and>
         map_of (entries (cache (snd (setitem k v st)))) k = Some v \<and>
         (\<exists>es. entries (cache (snd (setitem k v st))) = es @ [(k, v)]) \<and>
         engine_calls (snd (setitem k v st)) = engine_calls st \<and>
         (\<forall>p. p \<notin> snd ` set (entries (cache st)) \<longrightarrow> files (snd (setitem k v st)) p = files st p)"
proof (cases "lru_contains (cache st) k")
  case True
  with cap show ?thesis
    by (simp add: setitem_present map_of_lru_touch del: map_of_append)
next
  case False
  then have fresh: "k \<notin> fst ` set (entries (cache st))"
    by (simp add: lru_contains_iff)
  show ?thesis
  proof (cases "length (entries (cache st)) < maxsize (cache st)")
    case True
    with False fresh show ?thesis
      by (simp add: setitem_room map_of_snoc_new del: map_of_append)
  next
    case full: False
    with inv have len: "length (entries (cache st)) = maxsize (cache st)"
      by (simp add: cache_inv_def)
    with cap obtain k0 v0 rest where es: "entries (cache st) = (k0, v0) # rest"
      by (cases "entries (cache st)") auto
    from fresh es have "k \<notin> fst ` set rest"
      by simp
    then have "map_of (rest @ [(k, v)]) k = Some v"
      by (rule map_of_snoc_new)
    with es show ?thesis
      by (auto simp add: setitem_full [OF False es len] simp del: map_of_append)
  qed
qed


lemma cache_inv_touch:
  assumes "cache_inv c" and "map_of (entries c) k = Some p"
  shows "cache_inv (c\<lparr>entries := lru_remove k (entries c) @ [(k, v)]\<rparr>)"
proof -
  from assms(2) have "k \<in> fst ` set (entries c)"
    by (metis map_of_eq_None_iff option.distinct(1))
  with assms(1) have "Suc (length (lru_remove k (entries c))) = length (entries c)"
    by (simp add: cache_inv_def lru_remove_length)
  moreover have "distinct (map fst (lru_remove k (entries c)))"
    using assms(1) by (simp add: cache_inv_def lru_remove_distinct)
  moreover have "k \<notin> fst ` set (lru_remove k (entries c))"
    by (simp add: lru_remove_keys)
  ultimately show ?thesis
    using assms(1) by (simp add: cache_inv_def)
qed


lemma file_digest_content:
  "files st p = Some content \<Longrightarrow>
   file_digest env p st = Inr (xxh32_digest env (hash_blocks env (xxh32_new env) content))"
  by (simp add: file_digest_def)


lemma find_or_load_beats_hit:
  assumes "file_digest env filename st = Inr d" and "map_of (entries (cache st)) d = Some p"
  shows "find_or_load_beats env filename loader st =
     (case files st p of
        None \<Rightarrow>
          create_beats env filename loader d
            (st\<lparr>cache := (cache st)\<lparr>entries := lru_remove d (entries (cache st)) @ [(d, p)]\<rparr>,
                log := log st @ [LogHit d, LogLoadFailed d]\<rparr>)
      | Some pickled \<Rightarrow>
          (case pickle_loads env pickled of
             None \<Rightarrow>
               create_beats env filename loader d
                 (st\<lparr>cache := (cache st)\<lparr>entries := lru_remove d (entries (cache st)) @ [(d, p)]\<rparr>,
                     log := log st @ [LogHit d, LogLoadFailed d]\<rparr>)
           | Some beats \<Rightarrow>
               (Inr beats,
                st\<lparr>cache := (cache st)\<lparr>entries := lru_remove d (entries (cache st)) @ [(d, p)]\<rparr>,
                    log := log st @ [LogHit d]\<rparr>)))"
  using assms
  by (simp add: find_or_load_beats_def lru_contains_def lru_getitem_def Let_def
           split: option.splits)

text \<open>The miss path on a state that satisfies the invariant.\<close>

lemma create_beats_effect:
  assumes inv: "cache_inv (cache st)" and cap: "1 \<le> maxsize (cache st)"
    and song: "files st filename = Some content"
  shows "fst (create_beats env filename loader d st) = loader content \<and>
         engine_calls (snd (create_beats env filename loader d st)) = engine_calls st + 1 \<and>
         (\<exists>es q. entries (cache (snd (create_beats env filename loader d st))) = es @ [(d, q)] \<or>
                 entries (cache (snd (create_beats env filename loader d st))) = entries (cache st)) \<and>
         (\<forall>beats. loader content = Inr beats \<longrightarrow>
            map_of (entries (cache (snd (create_beats env filename loader d st)))) d =
              Some (filename @ ''_beats.pkl'') \<and>
            (filename @ ''_beats.pkl'' \<notin> snd ` set (entries (cache st)) \<longrightarrow>
               files (snd (create_beats env filename loader d st)) (filename @ ''_beats.pkl'') =
                 Some (pickle_dumps env beats)))"
proof (cases "loader content")
  case (Inl e)
  with song show ?thesis
    by (simp add: create_beats_unfold)
next
  case (Inr beats)
  let ?bf = "filename @ ''_beats.pkl''"
  let ?st2 = "st\<lparr>log := log st @ [LogMiss d], engine_calls := engine_calls st + 1,
                  files := (files st)(?bf \<mapsto> pickle_dumps env beats)\<rparr>"
  have inv2: "cache_inv (cache ?st2)" and cap2: "1 \<le> maxsize (cache ?st2)"
    using inv cap by simp_all
  note eff = setitem_effect [OF inv2 cap2, of d ?bf]
  from eff obtain st3 where st3: "setitem d ?bf ?st2 = (Inr (), st3)"
    by (cases "setitem d ?bf ?st2") auto
  with song Inr have res: "create_beats env filename loader d st = (Inr beats, st3)"
    by (simp add: create_beats_unfold)
  from eff st3 have "map_of (entries (cache st3)) d = Some ?bf"
    and "\<exists>es. entries (cache st3) = es @ [(d, ?bf)]"
    and "engine_calls st3 = engine_calls st + 1"
    and "?bf \<notin> snd ` set (entries (cache st)) \<longrightarrow> files st3 ?bf = Some (pickle_dumps env beats)"
    by simp_all
  with res Inr show ?thesis
    by auto
qed


lemma create_beats_inv:
  assumes inv: "cache_inv (cache st)" and cap: "1 \<le> maxsize (cache st)"
  shows "cache_inv (cache (snd (create_beats env filename loader d st))) \<and>
         maxsize (cache (snd (create_beats env filename loader d st))) = maxsize (cache st)"
proof (cases "files st filename")
  case None
  with inv show ?thesis
    by (simp add: create_beats_unfold)
next
  case (Some content)
  show ?thesis
  proof (cases "loader content")
    case (Inl e)
    with Some inv show ?thesis
      by (simp add: create_beats_unfold)
  next
    case (Inr beats)
    let ?bf = "filename @ ''_beats.pkl''"
    let ?st2 = "st\<lparr>log := log st @ [LogMiss d], engine_calls := engine_calls st + 1,
                    files := (files st)(?bf \<mapsto> pickle_dumps env beats)\<rparr>"
    have "cache_inv (cache ?st2)" and "1 \<le> maxsize (cache ?st2)"
      using inv cap by simp_all
    from setitem_inv [OF this, of d ?bf]
    have "fst (setitem d ?bf ?st2) = Inr ()"
      and "cache_inv (cache (snd (setitem d ?bf ?st2)))"
      and "maxsize (cache (snd (setitem d ?bf ?st2))) = maxsize (cache st)"
      by simp_all
    with Some Inr show ?thesis
      by (cases "setitem d ?bf ?st2") (simp add: create_beats_unfold)
  qed
qed

lemma mru_survives_store:
  assumes inv: "cache_inv (cache st)" and cap: "2 \<le> maxsize (cache st)"
    and mru: "entries (cache st) = es @ [(d, q)]"
  shows "lru_contains (cache (snd (setitem k v st))) d"
proof (cases "lru_contains (cache st) k")
  case True
  with cap mru show ?thesis
    by (auto simp: setitem_present lru_contains_iff lru_remove_keys)
next
  case False
  show ?thesis
  proof (cases "length (entries (cache st)) < maxsize (cache st)")
    case True
    with False mru show ?thesis
      by (simp add: setitem_room lru_contains_iff)
  next
    case full: False
    with inv have len: "length (entries (cache st)) = maxsize (cache st)"
      by (simp add: cache_inv_def)
    with cap mru obtain k0 v0 rest where es: "es = (k0, v0) # rest"
      by (cases es) auto
    with mru have "entries (cache st) = (k0, v0) # (rest @ [(d, q)])"
      by simp
    from setitem_full [OF False this len] show ?thesis
      by (simp add: lru_contains_iff)
  qed
qed

text \<open>
  C5. When the fingerprint of the song is cached but the stored artifact fails to
  deserialize, the lookup behaves as a miss: the exception is caught and logged, control
  continues with the miss path on the state the failed lookup left, the beat engine is
  invoked once, and what the caller receives is exactly what the engine returns.
\<close>

theorem corrupt_entry_is_miss:
  assumes inv: "cache_inv (cache st)"
    and song: "files st filename = Some content"
    and dig: "file_digest env filename st = Inr d"
    and ent: "map_of (entries (cache st)) d = Some p"
    and art: "files st p = Some pickled"
    and bad: "pickle_loads env pickled = None"
  shows "find_or_load_beats env filename loader st =
           create_beats env filename loader d
             (st\<lparr>cache := (cache st)\<lparr>entries := lru_remove d (entries (cache st)) @ [(d, p)]\<rparr>,
                 log := log st @ [LogHit d, LogLoadFailed d]\<rparr>) \<and>
         fst (find_or_load_beats env filename loader st) = loader content \<and>
         engine_calls (snd (find_or_load_beats env filename loader st)) = engine_calls st + 1"
proof -
  let ?st3 = "st\<lparr>cache := (cache st)\<lparr>entries := lru_remove d (entries (cache st)) @ [(d, p)]\<rparr>,
                 log := log st @ [LogHit d, LogLoadFailed d]\<rparr>"
  have fall: "find_or_load_beats env filename loader st = create_beats env filename loader d ?st3"
    using art bad by (simp add: find_or_load_beats_hit [OF dig ent])
  have inv3: "cache_inv (cache ?st3)"
    using cache_inv_touch [OF inv ent, of p] by simp
  then have cap3: "1 \<le> maxsize (cache ?st3)"
    by (simp add: cache_inv_def)
  have song3: "files ?st3 filename = Some content"
    using song by simp
  from create_beats_effect [OF inv3 cap3 song3, of env loader d] fall show ?thesis
    by simp
qed

text \<open>
  C6. A lookup that hits leaves the looked-up fingerprint at the most recently used end of
  the order, whether or not the artifact then loads; so, in a cache of capacity at least
  two, no following store evicts it, even when it was the oldest entry of a full cache.
\<close>

theorem hit_marks_most_recently_used:
  assumes inv: "cache_inv (cache st)" and cap: "2 \<le> maxsize (cache st)"
    and dig: "file_digest env filename st = Inr d"
    and hit: "lru_contains (cache st) d"
  shows "(\<exists>es q. entries (cache (snd (find_or_load_beats env filename loader st))) = es @ [(d, q)]) \<and>
         (\<forall>k v. lru_contains
                  (cache (snd (setitem k v (snd (find_or_load_beats env filename loader st))))) d)"
proof -
  let ?st' = "snd (find_or_load_beats env filename loader st)"
  from dig obtain content where song: "files st filename = Some content"
    by (auto simp: file_digest_def split: option.splits)
  from hit obtain p where ent: "map_of (entries (cache st)) d = Some p"
    by (auto simp: lru_contains_def)
  let ?touched = "(cache st)\<lparr>entries := lru_remove d (entries (cache st)) @ [(d, p)]\<rparr>"
  let ?st3 = "st\<lparr>cache := ?touched, log := log st @ [LogHit d, LogLoadFailed d]\<rparr>"
  have inv3: "cache_inv (cache ?st3)" and cap3: "1 \<le> maxsize (cache ?st3)"
    and song3: "files ?st3 filename = Some content"
    using cache_inv_touch [OF inv ent, of p] cap song by simp_all
  have fallthrough:
    "(\<exists>es q. entries (cache (snd (create_beats env filename loader d ?st3))) = es @ [(d, q)]) \<and>
     cache_inv (cache (snd (create_beats env filename loader d ?st3))) \<and>
     maxsize (cache (snd (create_beats env filename loader d ?st3))) = maxsize (cache st)"
    using create_beats_effect [OF inv3 cap3 song3, of env loader d]
      create_beats_inv [OF inv3 cap3, of env filename loader d]
    by auto
  have "(\<exists>es q. entries (cache ?st') = es @ [(d, q)]) \<and> cache_inv (cache ?st') \<and>
        maxsize (cache ?st') = maxsize (cache st)"
  proof (cases "files st p")
    case None
    with fallthrough show ?thesis
      by (simp add: find_or_load_beats_hit [OF dig ent])
  next
    case (Some pickled)
    show ?thesis
    proof (cases "pickle_loads env pickled")
      case None
      with Some fallthrough show ?thesis
        by (simp add: find_or_load_beats_hit [OF dig ent])
    next
      case (Some beats)
      with \<open>files st p = Some pickled\<close> cache_inv_touch [OF inv ent, of p] show ?thesis
        by (simp add: find_or_load_beats_hit [OF dig ent])
    qed
  qed
  then obtain es q where mru: "entries (cache ?st') = es @ [(d, q)]"
    and inv': "cache_inv (cache ?st')" and cap': "2 \<le> maxsize (cache ?st')"
    using cap by auto
  from mru mru_survives_store [OF inv' cap' mru] show ?thesis
    by blast
qed




text \<open>\<open>demo_reuse_state\<close> is reached from the empty cache by the eight uploads.\<close>

lemma demo_reuse_state_reachable:
  "demo_reuse_state =
     (demo_uploads eight_uploads (initial_state Map.empty))
       \<lparr>files := (files (demo_uploads eight_uploads (initial_state Map.empty)))
                   (''t1'' \<mapsto> [1, 2, 3], ''t9'' \<mapsto> [1, 2, 3])\<rparr>"
  by (simp add: demo_run eight_uploads_def demo_kwargs_def demo_reuse_state_def)




lemma demo_digest:
  "xxh32_digest demo_env (hash_blocks demo_env (xxh32_new demo_env) [1, 2, 3]) = 1026"
  by (simp add: demo_env_def hash_blocks.simps)




theorem corrupt_entry_is_miss_witness:
  "pickle_loads demo_env [0] = None \<and>
   fst (find_or_load_beats demo_env ''a.mp3''
          (load_beats_by_signal demo_env \<lparr>min_bpm = JInt 100, max_bpm = JInt 140\<rparr>)
          demo_corrupt_state) = Inr [100, 140, 1, 2, 3] \<and>
   engine_calls (snd (find_or_load_beats demo_env ''a.mp3''
          (load_beats_by_signal demo_env \<lparr>min_bpm = JInt 100, max_bpm = JInt 140\<rparr>)
          demo_corrupt_state)) = 1"
proof -
  have inv: "cache_inv (cache demo_corrupt_state)"
    and song: "files demo_corrupt_state ''a.mp3'' = Some [1, 2, 3]"
    and ent: "map_of (entries (cache demo_corrupt_state)) 1026 = Some ''old.pkl''"
    and art: "files demo_corrupt_state ''old.pkl'' = Some [0]"
    by (simp_all add: demo_corrupt_state_def cache_inv_def)
  have dig: "file_digest demo_env ''a.mp3'' demo_corrupt_state = Inr 1026"
    by (simp add: file_digest_content [OF song] demo_digest)
  have bad: "pickle_loads demo_env [0] = None"
    by (simp add: demo_env_def)
  have engine: "load_beats_by_signal demo_env \<lparr>min_bpm = JInt 100, max_bpm = JInt 140\<rparr> [1, 2, 3] =
      Inr [100, 140, 1, 2, 3]"
    by (simp add: demo_env_def)
  have calls: "engine_calls demo_corrupt_state = 0"
    by (simp add: demo_corrupt_state_def)
  note miss = corrupt_entry_is_miss [OF inv song dig ent art bad,
         of "load_beats_by_signal demo_env \<lparr>min_bpm = JInt 100, max_bpm = JInt 140\<rparr>"]
  from miss [THEN conjunct2] bad engine calls show ?thesis
    by simp
qed

theorem hit_marks_most_recently_used_witness:
  "lru_contains (cache demo_full_state) 1026 \<and>
   fst (hd (entries (cache demo_full_state))) = 1026 \<and>
   length (entries (cache demo_full_state)) = 8 \<and>
   lru_contains (cache (snd (setitem 99 ''new''
      (snd (find_or_load_beats demo_env ''a.mp3''
              (load_beats_by_signal demo_env \<lparr>min_bpm = JInt 60, max_bpm = JInt 300\<rparr>)
              demo_full_state))))) 1026"
proof -
  have inv: "cache_inv (cache demo_full_state)" and cap: "2 \<le> maxsize (cache demo_full_state)"
    and hit: "lru_contains (cache demo_full_state) 1026"
    and song: "files demo_full_state ''a.mp3'' = Some [1, 2, 3]"
    by (simp_all add: demo_full_state_def cache_inv_def lru_contains_def)
  have dig: "file_digest demo_env ''a.mp3'' demo_full_state = Inr 1026"
    by (simp add: file_digest_content [OF song] demo_digest)
  have shape: "fst (hd (entries (cache demo_full_state))) = 1026"
    "length (entries (cache demo_full_state)) = 8"
    by (simp_all add: demo_full_state_def)
  from hit_marks_most_recently_used [OF inv cap dig hit,
         of "load_beats_by_signal demo_env \<lparr>min_bpm = JInt 60, max_bpm = JInt 300\<rparr>"]
       hit shape
  show ?thesis
    by blast
qed

section \<open>The fingerprint\<close>

lemma hash_blocks_fold:
  "hash_blocks env h xs = foldl (xxh32_update env) h (blocks 512 xs)"
proof (induction env h xs rule: hash_blocks.induct)
  case (1 env h rest)
  show ?case
  proof (cases "rest = []")
    case True
    then show ?thesis
      by (simp add: hash_blocks.simps blocks.simps)
  next
    case False
    then have "take 512 rest \<noteq> []"
      by simp
    with 1 [OF refl this] False show ?thesis
      by (subst hash_blocks.simps, subst blocks.simps) simp
  qed
qed

lemma concat_blocks: "0 < n \<Longrightarrow> concat (blocks n xs) = xs"
proof (induction n xs rule: blocks.induct)
  case (1 n xs)
  then show ?case
    by (subst blocks.simps) simp
qed

lemma blocks_length: "b \<in> set (blocks n xs) \<Longrightarrow> 0 < length b \<and> length b \<le> n"
proof (induction n xs rule: blocks.induct)
  case (1 n xs)
  from "1.prems" have ne: "\<not> (n = 0 \<or> xs = [])"
    by (subst (asm) blocks.simps) (auto split: if_splits)
  with "1.prems" have "b = take n xs \<or> b \<in> set (blocks n (drop n xs))"
    by (subst (asm) blocks.simps) simp
  with 1 ne show ?case
    by auto
qed

lemma blocks_butlast_length: "b \<in> set (butlast (blocks n xs)) \<Longrightarrow> length b = n"
proof (induction n xs rule: blocks.induct)
  case (1 n xs)
  from "1.prems" have ne: "\<not> (n = 0 \<or> xs = [])"
    by (subst (asm) blocks.simps) (auto split: if_splits)
  then have unfold: "blocks n xs = take n xs # blocks n (drop n xs)"
    by (subst blocks.simps) simp
  show ?case
  proof (cases "blocks n (drop n xs) = []")
    case True
    with "1.prems" unfold show ?thesis
      by simp
  next
    case False
    then have "drop n xs \<noteq> []"
      by (subst (asm) blocks.simps) (auto split: if_splits)
    then have full: "length (take n xs) = n"
      by simp
    from "1.prems" unfold False
    have "b = take n xs \<or> b \<in> set (butlast (blocks n (drop n xs)))"
      by simp
    with full "1.IH" [OF ne] show ?thesis
      by auto
  qed
qed

text \<open>
  C9. The fingerprint of a readable file is the digest of the streaming hash fed with the
  content in consecutive blocks: the blocks concatenate to the content, each holds between
  1 and 512 bytes, and all but the last hold exactly 512. It is a 32-bit word and a
  function of the bytes alone: two files with the same bytes, under any names and in any
  states, have the same fingerprint.
\<close>

theorem fingerprint_of_content:
  assumes "files st1 p1 = Some content" and "files st2 p2 = Some content"
  shows "file_digest env p1 st1 =
           Inr (xxh32_digest env (foldl (xxh32_update env) (xxh32_new env) (blocks 512 content))) \<and>
         file_digest env p2 st2 = file_digest env p1 st1 \<and>
         concat (blocks 512 content) = content \<and>
         (\<forall>b \<in> set (blocks 512 content). 0 < length b \<and> length b \<le> 512) \<and>
         (\<forall>b \<in> set (butlast (blocks 512 content)). length b = 512)"
proof -
  have digest: "file_digest env p st =
      Inr (xxh32_digest env (foldl (xxh32_update env) (xxh32_new env) (blocks 512 content)))"
    if "files st p = Some content" for p st
    using that by (simp add: file_digest_def hash_blocks_fold)
  have sizes: "\<forall>b \<in> set (blocks 512 content). 0 < length b \<and> length b \<le> 512"
    using blocks_length [of _ 512 content] by blast
  have full: "\<forall>b \<in> set (butlast (blocks 512 content)). length b = 512"
    using blocks_butlast_length [of _ 512 content] by blast
  have whole: "concat (blocks 512 content) = content"
    by (simp add: concat_blocks)
  from digest [OF assms(1)] digest [OF assms(2)] sizes full whole show ?thesis
    by simp
qed

lemma blocks_600: "blocks 512 (replicate 600 (7 :: byte)) = [replicate 512 7, replicate 88 7]"
  by (simp add: blocks.simps)

theorem fingerprint_of_content_witness:
  "file_digest demo_env ''x.mp3'' demo_long_song =
     Inr (xxh32_digest demo_env
            (xxh32_update demo_env (xxh32_update demo_env (xxh32_new demo_env) (replicate 512 7))
               (replicate 88 7))) \<and>
   file_digest demo_env ''y.mp3'' demo_long_song = file_digest demo_env ''x.mp3'' demo_long_song"
proof -
  have x: "files demo_long_song ''x.mp3'' = Some (replicate 600 7)"
    and y: "files demo_long_song ''y.mp3'' = Some (replicate 600 7)"
    by (simp_all add: demo_long_song_def initial_state_def)
  from fingerprint_of_content [OF x y, of demo_env] show ?thesis
    by (simp add: blocks_600)
qed

section \<open>The pipeline and the endpoints\<close>

text \<open>
  C7. \<^verbatim>\<open>process_song\<close> answers with the "too long" error (status 422) if and only if the
  metadata is readable and the duration strictly exceeds 390 seconds; a song of at most
  390 seconds is not rejected with any \<open>HTTPException\<close>. At the boundary, 390 seconds
  is accepted and 391 seconds is rejected.
\<close>

theorem too_long_iff:
  "(fst (process_song env effs filename kw st) =
      Inl (HTTPException 422 ''Song is too long (max is 390 seconds)'')) =
   (\<exists>len. MP3 env filename st = Inr len \<and> 390 < len) \<and>
   (\<forall>len. MP3 env filename st = Inr len \<and> len \<le> 390 \<longrightarrow>
      (\<forall>code detail. fst (process_song env effs filename kw st) \<noteq> Inl (HTTPException code detail)))"
  by (auto simp: process_song_def MAX_LENGTH_def split: sum.splits prod.splits)

theorem too_long_iff_witness:
  "MP3 demo_env ''s.mp3'' demo_song_390 = Inr 390 \<and>
   fst (process_song demo_env [9] ''s.mp3'' demo_kwargs demo_song_390) =
     Inr (StreamingResponse [60, 200, 1, 134, 5, 9] ''audio/mpeg'') \<and>
   MP3 demo_env ''s.mp3'' demo_song_391 = Inr 391 \<and>
   fst (process_song demo_env [9] ''s.mp3'' demo_kwargs demo_song_391) =
     Inl (HTTPException 422 ''Song is too long (max is 390 seconds)'')"
proof -
  have at_390: "MP3 demo_env ''s.mp3'' demo_song_390 = Inr 390"
    by (simp add: MP3_def demo_env_def demo_song_390_def initial_state_def)
  have at_391: "MP3 demo_env ''s.mp3'' demo_song_391 = Inr 391"
    by (simp add: MP3_def demo_env_def demo_song_391_def initial_state_def)
  have accepted: "fst (process_song demo_env [9] ''s.mp3'' demo_kwargs demo_song_390) =
      Inr (StreamingResponse [60, 200, 1, 134, 5, 9] ''audio/mpeg'')"
    by (simp add: demo_run demo_song_390_def demo_kwargs_def)
  from at_391 have "\<exists>len. MP3 demo_env ''s.mp3'' demo_song_391 = Inr len \<and> 390 < len"
    by simp
  with too_long_iff [of demo_env "[9]" "''s.mp3''" demo_kwargs demo_song_391]
  have "fst (process_song demo_env [9] ''s.mp3'' demo_kwargs demo_song_391) =
      Inl (HTTPException 422 ''Song is too long (max is 390 seconds)'')"
    by blast
  with at_390 at_391 accepted show ?thesis
    by simp
qed

text \<open>
  The source file is removed by the last statement of the success path only: a successful
  run leaves no source file, and a rejection by validation leaves the whole state, the
  source file included, as it was.
\<close>

lemma process_song_success_removes_file:
  "fst (process_song env effs filename kw st) = Inr r \<Longrightarrow>
   files (snd (process_song env effs filename kw st)) filename = None"
  by (auto simp: process_song_def os_remove_def split: sum.splits prod.splits if_splits)

lemma process_song_rejection_keeps_state:
  "fst (process_song env effs filename kw st) = Inl (HTTPException code detail) \<Longrightarrow>
   snd (process_song env effs filename kw st) = st"
  by (auto simp: process_song_def split: sum.splits prod.splits if_splits)

text \<open>
  C1. The claim is that the temporary source file is deleted on every exit path. The code
  does not do so when a step fails: for a song of 391 seconds \<^verbatim>\<open>process_song\<close> raises
  the "too long" error and the source file is still there, and when an effect fails the
  exception propagates and the source file is still there.
\<close>

theorem process_song_failure_keeps_source_file:
  "fst (process_song demo_env [9] ''s.mp3'' demo_kwargs demo_song_391) =
     Inl (HTTPException 422 ''Song is too long (max is 390 seconds)'') \<and>
   files (snd (process_song demo_env [9] ''s.mp3'' demo_kwargs demo_song_391)) ''s.mp3'' =
     Some [1, 135, 5] \<and>
   fst (process_song demo_env [0] ''s.mp3'' demo_kwargs demo_song_390) = Inl (Uncaught EngineError) \<and>
   files (snd (process_song demo_env [0] ''s.mp3'' demo_kwargs demo_song_390)) ''s.mp3'' =
     Some [1, 134, 5]"
  by (simp add: demo_run demo_song_390_def demo_song_391_def demo_kwargs_def)

text \<open>
  \<^verbatim>\<open>POST /\<close> checks the length of the chain before it creates the temporary file.
\<close>

lemma process_song_from_file_chain_length:
  assumes "parse_effects env form = Inr (effs, setts)"
  shows "(5 < length effs \<longrightarrow>
            process_song_from_file env form song tmp st =
              (Inl (HTTPException 400 ''Too many effects (max is 5)''), st)) \<and>
         (length effs < 1 \<longrightarrow>
            process_song_from_file env form song tmp st =
              (Inl (HTTPException 400 ''Not enough effects (min is 1)''), st))"
  using assms by (simp add: process_song_from_file_def)

text \<open>
  C2. The claim is that either endpoint rejects a chain of fewer than 1 or more than 5
  effects with status 400. \<^verbatim>\<open>POST /yt\<close> has no such check: a payload with no effect,
  and one with six effects, are processed and answered with the encoded audio, while
  \<^verbatim>\<open>POST /\<close> rejects the empty chain.
\<close>

theorem youtube_chain_length_unchecked:
  "fst (process_song_from_youtube demo_env (demo_payload []) ''id'' (initial_state Map.empty)) =
     Inr (StreamingResponse [60, 44, 1, 2, 3] ''audio/mpeg'') \<and>
   fst (process_song_from_youtube demo_env
          (demo_payload [one_effect, one_effect, one_effect, one_effect, one_effect, one_effect])
          ''id'' (initial_state Map.empty)) =
     Inr (StreamingResponse [60, 44, 1, 2, 3, 1, 1, 1, 1, 1, 1] ''audio/mpeg'') \<and>
   fst (process_song_from_file demo_env (Some ''[]'') (Some [1, 2, 3]) ''tmp.mp3''
          (initial_state Map.empty)) =
     Inl (HTTPException 400 ''Not enough effects (min is 1)'')"
  by (simp add: demo_run process_song_from_youtube_def settings_to_kwargs_def demo_payload_def
        one_effect_def process_song_from_file_def parse_effects_def)

end
